theory Spec2Isabelle
  imports Complex_Main "HOL-Library.Sublist"
begin

section \<open>Python values used by the summarization pipeline\<close>

text \<open>
  Python strings are modelled as \<open>string\<close>, holding the UTF-8 bytes of the text: the prefix
  and containment tests of the source give the same answer on bytes as on code points, and
  splitting at whitespace is done code point by code point. Accented letters of the
  source's literals are written as their two bytes.
\<close>

definition nl :: string where
  "nl = [CHR 0x0A]"

definition e_acute :: string where
  "e_acute = [CHR 0xC3, CHR 0xA9]"

definition e_grave :: string where
  "e_grave = [CHR 0xC3, CHR 0xA8]"

definition a_grave :: string where
  "a_grave = [CHR 0xC3, CHR 0xA0]"

definition E_acute :: string where
  "E_acute = [CHR 0xC3, CHR 0x89]"

text \<open>
  The exceptions the source distinguishes: \<open>requests.exceptions.HTTPError\<close>, \<open>ValueError\<close>,
  and every other subclass of \<open>Exception\<close>. Each carries the text that \<open>str(e)\<close> gives.
\<close>

datatype exn = HTTPError string | ValueError string | OtherError string

fun str_exn :: "exn \<Rightarrow> string" where
  "str_exn (HTTPError m) = m"
| "str_exn (ValueError m) = m"
| "str_exn (OtherError m) = m"

text \<open>\<open>try: body except Exception as e: handler(e)\<close>\<close>

definition try_except :: "exn + 'a \<Rightarrow> (exn \<Rightarrow> exn + 'a) \<Rightarrow> exn + 'a" where
  "try_except body handler = (case body of Inl e \<Rightarrow> handler e | Inr v \<Rightarrow> Inr v)"

text \<open>Slicing \<open>xs[a:b]\<close>: a negative index counts from the end, and both are clipped.\<close>

definition py_index :: "int \<Rightarrow> int \<Rightarrow> nat" where
  "py_index n i = nat (if i < 0 then max (i + n) 0 else min i n)"

definition py_slice :: "'a list \<Rightarrow> int \<Rightarrow> int \<Rightarrow> 'a list" where
  "py_slice xs a b =
     (let n = int (length xs); lo = py_index n a; hi = py_index n b
      in take (hi - lo) (drop lo xs))"

text \<open>\<open>sep.join(xs)\<close>\<close>

fun py_join :: "string \<Rightarrow> string list \<Rightarrow> string" where
  "py_join sep [] = []"
| "py_join sep [x] = x"
| "py_join sep (x # y # ys) = x @ sep @ py_join sep (y # ys)"

text \<open>
  \<open>text.split()\<close>: the words between runs of whitespace. Python splits at the 29 code
  points for which \<open>str.isspace\<close> holds; \<open>unicode_spaces\<close> lists their UTF-8 encodings:
  U+0009 to U+000D, U+001C to U+001F, U+0020, U+0085, U+00A0, U+1680, U+2000 to U+200A,
  U+2028, U+2029, U+202F, U+205F and U+3000. No encoding is a prefix of another, and in
  UTF-8 text one can only start where a code point starts. \<open>space_len s\<close> is the number of
  bytes of the whitespace code point at the head of \<open>s\<close>, and 0 when there is none.
\<close>

definition unicode_spaces :: "string list" where
  "unicode_spaces =
     [[CHR 0x09], [CHR 0x0A], [CHR 0x0B], [CHR 0x0C], [CHR 0x0D],
      [CHR 0x1C], [CHR 0x1D], [CHR 0x1E], [CHR 0x1F], [CHR 0x20],
      [CHR 0xC2, CHR 0x85], [CHR 0xC2, CHR 0xA0], [CHR 0xE1, CHR 0x9A, CHR 0x80],
      [CHR 0xE2, CHR 0x80, CHR 0x80], [CHR 0xE2, CHR 0x80, CHR 0x81],
      [CHR 0xE2, CHR 0x80, CHR 0x82], [CHR 0xE2, CHR 0x80, CHR 0x83],
      [CHR 0xE2, CHR 0x80, CHR 0x84], [CHR 0xE2, CHR 0x80, CHR 0x85],
      [CHR 0xE2, CHR 0x80, CHR 0x86], [CHR 0xE2, CHR 0x80, CHR 0x87],
      [CHR 0xE2, CHR 0x80, CHR 0x88], [CHR 0xE2, CHR 0x80, CHR 0x89],
      [CHR 0xE2, CHR 0x80, CHR 0x8A], [CHR 0xE2, CHR 0x80, CHR 0xA8],
      [CHR 0xE2, CHR 0x80, CHR 0xA9], [CHR 0xE2, CHR 0x80, CHR 0xAF],
      [CHR 0xE2, CHR 0x81, CHR 0x9F], [CHR 0xE3, CHR 0x80, CHR 0x80]]"

definition space_len :: "string \<Rightarrow> nat" where
  "space_len s =
     (case find (\<lambda>w. prefix w s) unicode_spaces of None \<Rightarrow> 0 | Some w \<Rightarrow> length w)"

fun split_words :: "string \<Rightarrow> string \<Rightarrow> string list" where
  "split_words cur [] = (if cur = [] then [] else [cur])"
| "split_words cur (c # cs) =
     (let k = space_len (c # cs) in
      if 0 < k then
        (if cur = [] then split_words [] (drop (k - 1) cs)
         else cur # split_words [] (drop (k - 1) cs))
      else split_words (cur @ [c]) cs)"

definition py_split :: "string \<Rightarrow> string list" where
  "py_split text = split_words [] text"

text \<open>\<open>str(n)\<close> for a non-negative integer.\<close>

definition digit :: "nat \<Rightarrow> char" where
  "digit d = char_of (48 + d)"

fun str_nat :: "nat \<Rightarrow> string" where
  "str_nat n = (if n < 10 then [digit n] else str_nat (n div 10) @ [digit (n mod 10)])"

declare str_nat.simps [simp del]

text \<open>
  \<open>int(round(a / b))\<close> for lengths \<open>a\<close> and \<open>b > 0\<close>: the quotient rounded to the nearest
  integer, a tie going to the even one. (For list lengths the float quotient is a tie exactly
  when the rational one is.)
\<close>

definition py_round_div :: "nat \<Rightarrow> nat \<Rightarrow> int" where
  "py_round_div a b =
     (let q = a div b; r = a mod b
      in if 2 * r < b then int q
         else if 2 * r > b then int q + 1
         else if even q then int q else int q + 1)"

section \<open>Tokenization utilities\<close>

text \<open>
  From \<open>streamlit_appv6.py\<close>: \<open>get_hf_tokenizer\<close>, \<open>encode_tokens\<close> and \<open>count_tokens\<close>.
  A token is an integer id (HuggingFace, tiktoken) or, in the last-resort fallback, a word.
\<close>

datatype token = TokenId int | TokenWord string

text \<open>
  The tokenizer libraries are outside the repository and are taken as parameters:
  \<open>from_pretrained\<close> is \<open>AutoTokenizer.from_pretrained(model_id, use_fast=True)\<close>, which may
  fail and otherwise gives a tokenizer with fallible \<open>encode\<close> and \<open>decode\<close>;
  \<open>tiktoken_encode\<close> is the import of tiktoken, \<open>get_encoding("cl100k_base")\<close> and its
  \<open>encode\<close>, any of which may fail.
\<close>

record hf_tokenizer =
  tok_encode :: "string \<Rightarrow> exn + int list"
  tok_decode :: "token list \<Rightarrow> exn + string"

record tokenizers =
  from_pretrained :: "string \<Rightarrow> exn + hf_tokenizer"
  tiktoken_encode :: "string \<Rightarrow> exn + int list"

text \<open>
  \<open>get_hf_tokenizer\<close> returns the tokenizer, or \<open>None\<close> after a warning. The result is cached
  by model id in the source; the model is a function of the model id. The first component
  of the result lists the warnings shown with \<open>st.warning\<close>.
\<close>

definition get_hf_tokenizer :: "tokenizers \<Rightarrow> string \<Rightarrow> string list \<times> hf_tokenizer option" where
  "get_hf_tokenizer libs model_id =
     (case from_pretrained libs model_id of
        Inr tok \<Rightarrow> ([], Some tok)
      | Inl e \<Rightarrow> ([''Impossible de charger le tokenizer HF '' @ [CHR 0x27] @ model_id
                    @ [CHR 0x27] @ '': '' @ str_exn e], None))"

text \<open>The tail of \<open>encode_tokens\<close>: tiktoken, and whitespace splitting when it fails.\<close>

definition encode_approx :: "tokenizers \<Rightarrow> string \<Rightarrow> exn + token list" where
  "encode_approx libs text =
     try_except (map_sum id (map TokenId) (tiktoken_encode libs text))
                (\<lambda>_. Inr (map TokenWord (py_split text)))"

definition encode_tokens ::
  "tokenizers \<Rightarrow> string \<Rightarrow> string \<Rightarrow> string \<Rightarrow> string list \<times> (exn + token list)" where
  "encode_tokens libs text backend hf_model_id =
     (if text = [] then ([], Inr [])
      else if backend = ''HuggingFace'' then
        (case get_hf_tokenizer libs hf_model_id of
           (ws, None) \<Rightarrow> (ws, encode_approx libs text)
         | (ws, Some tok) \<Rightarrow>
             (case tok_encode tok text of
                Inr ids \<Rightarrow> (ws, Inr (map TokenId ids))
              | Inl e \<Rightarrow> (ws @ [''Echec encodage HF, fallback tiktoken: '' @ str_exn e],
                          encode_approx libs text)))
      else ([], encode_approx libs text))"

definition count_tokens :: "tokenizers \<Rightarrow> string \<Rightarrow> string \<Rightarrow> string \<Rightarrow> exn + int" where
  "count_tokens libs text backend hf_model_id =
     map_sum id (\<lambda>ids. int (length ids)) (snd (encode_tokens libs text backend hf_model_id))"

section \<open>Chunking\<close>

text \<open>
  The \<open>while\<close> loop of \<open>chunk_text_by_tokens\<close> (\<open>streamlit_appv6.py\<close>), with the loop
  variables \<open>start\<close> and \<open>chunks\<close> as arguments; \<open>max_tokens\<close> and \<open>overlap\<close> are Python
  integers of either sign. The loop may run forever: the result is then \<open>None\<close>.
\<close>

partial_function (option) chunk_loop ::
  "'t list \<Rightarrow> int \<Rightarrow> int \<Rightarrow> int \<Rightarrow> 't list list \<Rightarrow> 't list list option" where
  "chunk_loop ids max_tokens overlap start chunks =
     (let n = int (length ids) in
      if start < n then
        (let end = min (start + max_tokens) n;
             chunks' = chunks @ [py_slice ids start end]
         in if end \<ge> n then Some chunks'
            else chunk_loop ids max_tokens overlap
                   (if end - overlap > 0 then end - overlap else end) chunks')
      else Some chunks)"

declare chunk_loop.simps [code]

text \<open>Decoding with the HuggingFace tokenizer: the first failing \<open>decode\<close> ends the loop.\<close>

fun decode_hf :: "(token list \<Rightarrow> exn + string) \<Rightarrow> token list list \<Rightarrow> exn + string list" where
  "decode_hf dec [] = Inr []"
| "decode_hf dec (c # cs) =
     (case dec c of
        Inl e \<Rightarrow> Inl e
      | Inr s \<Rightarrow> (case decode_hf dec cs of Inl e \<Rightarrow> Inl e | Inr ss \<Rightarrow> Inr (s # ss)))"

text \<open>Decoding without it: a proportional slice of the words of the text for each chunk.\<close>

fun decode_words :: "string list \<Rightarrow> int \<Rightarrow> int \<Rightarrow> int \<Rightarrow> token list list \<Rightarrow> string list" where
  "decode_words words ratio overlap idx [] = []"
| "decode_words words ratio overlap idx (c # cs) =
     (let take = max 1 (int (length c) * ratio)
      in py_join '' '' (py_slice words idx (idx + take))
         # decode_words words ratio overlap (idx + (take - min overlap 50)) cs)"

definition chunk_text_by_tokens ::
  "tokenizers \<Rightarrow> string \<Rightarrow> int \<Rightarrow> string \<Rightarrow> string \<Rightarrow> int \<Rightarrow> (exn + string list) option" where
  "chunk_text_by_tokens libs text max_tokens backend hf_model_id overlap =
     (case snd (encode_tokens libs text backend hf_model_id) of
        Inl e \<Rightarrow> Some (Inl e)
      | Inr ids \<Rightarrow>
          if ids = [] then Some (Inr [])
          else
            (case chunk_loop ids max_tokens overlap 0 [] of
               None \<Rightarrow> None
             | Some chunks \<Rightarrow>
                 Some (if backend = ''HuggingFace''
                          \<and> snd (get_hf_tokenizer libs hf_model_id) \<noteq> None
                       then decode_hf (tok_decode (the (snd (get_hf_tokenizer libs hf_model_id))))
                              chunks
                       else
                         (let words = py_split text in
                          if length ids = 0 then Inr [text]
                          else
                            (let ratio = max 1 (py_round_div (length words) (length ids))
                             in Inr (decode_words words ratio overlap 0 chunks))))))"

section \<open>LM Studio helpers\<close>

text \<open>
  \<open>chat_or_complete\<close> of \<open>streamlit_appv6.py\<close>. The two HTTP calls are parameters:
  \<open>call_chat\<close> is \<open>call_chat_completions\<close> applied to the system and the user prompt,
  \<open>call_compl\<close> is \<open>call_completions\<close> applied to the merged prompt (base URL, model,
  temperature and output limit are fixed for a run). Either returns the text of the first
  choice (the empty string when there is none) or raises. \<open>chat_or_complete\<close> returns the
  endpoints it called, in order, and its outcome.

  Each of the two \<open>try\<close> blocks is a function to a \<open>step\<close>: \<open>Done\<close> when the block returns
  from \<open>chat_or_complete\<close> or raises out of it, \<open>Next\<close> when control goes on after the
  block, with the value of \<open>last_error\<close>.
\<close>

datatype endpoint = ChatCompletions | Completions

datatype step = Done "exn + string" | Next "exn option"

definition merged_prompt :: "string \<Rightarrow> string \<Rightarrow> string" where
  "merged_prompt system_prompt user_prompt =
     ''### System:'' @ nl @ system_prompt @ nl @ nl @ ''### User:'' @ nl @ user_prompt
     @ nl @ nl @ ''### Assistant:'' @ nl"

text \<open>\<open>f"{last_error}"\<close>: the text of the exception, or \<open>None\<close>.\<close>

definition str_last_error :: "exn option \<Rightarrow> string" where
  "str_last_error last_error = (case last_error of None \<Rightarrow> ''None'' | Some e \<Rightarrow> str_exn e)"

definition try_chat :: "(string \<Rightarrow> string \<Rightarrow> exn + string) \<Rightarrow> string \<Rightarrow> string \<Rightarrow> string \<Rightarrow> step" where
  "try_chat call_chat system_prompt user_prompt mode =
     (case call_chat system_prompt user_prompt of
        Inr result \<Rightarrow> if result \<noteq> [] then Done (Inr result) else Next None
      | Inl (HTTPError m) \<Rightarrow>
          if mode = ''chat''
          then Done (Inl (ValueError (''Erreur API chat/completions: '' @ m @ ''.'')))
          else Next (Some (HTTPError m))
      | Inl e \<Rightarrow> if mode = ''chat'' then Done (Inl e) else Next (Some e))"

definition try_completions ::
  "(string \<Rightarrow> exn + string) \<Rightarrow> string \<Rightarrow> string \<Rightarrow> exn option \<Rightarrow> step" where
  "try_completions call_compl system_prompt user_prompt last_error =
     (case call_compl (merged_prompt system_prompt user_prompt) of
        Inr result \<Rightarrow> if result \<noteq> [] then Done (Inr result) else Next last_error
      | Inl (HTTPError m) \<Rightarrow>
          Done (Inl (ValueError
            (E_acute @ ''chec des deux endpoints API.'' @ nl
             @ ''- /v1/chat/completions: '' @ str_last_error last_error @ nl
             @ ''- /v1/completions: '' @ m @ nl @ nl
             @ ''V'' @ e_acute @ ''rifiez LM Studio et le Context Length.'')))
      | Inl e \<Rightarrow>
          (case last_error of
             Some le \<Rightarrow>
               Done (Inl (ValueError
                 (E_acute @ ''chec chat ('' @ str_exn le @ '') et completions (''
                  @ str_exn e @ '')'')))
           | None \<Rightarrow> Done (Inl e)))"

definition chat_or_complete ::
  "(string \<Rightarrow> string \<Rightarrow> exn + string) \<Rightarrow> (string \<Rightarrow> exn + string) \<Rightarrow>
   string \<Rightarrow> string \<Rightarrow> string \<Rightarrow> endpoint list \<times> (exn + string)" where
  "chat_or_complete call_chat call_compl system_prompt user_prompt mode =
     (let (called1, step1) =
            (if mode \<in> {''auto'', ''chat''}
             then ([ChatCompletions], try_chat call_chat system_prompt user_prompt mode)
             else ([], Next None))
      in case step1 of
           Done r \<Rightarrow> (called1, r)
         | Next last_error \<Rightarrow>
             (let (called2, step2) =
                    (if mode \<in> {''auto'', ''completions''}
                     then ([Completions],
                           try_completions call_compl system_prompt user_prompt last_error)
                     else ([], Next last_error))
              in case step2 of
                   Done r \<Rightarrow> (called1 @ called2, r)
                 | Next last_error' \<Rightarrow>
                     (called1 @ called2,
                      case last_error' of Some e \<Rightarrow> Inl e | None \<Rightarrow> Inr [])))"

section \<open>Summary generation\<close>

text \<open>
  The server may answer each call differently, so its two endpoints take, as a first
  argument, the prompts of the earlier \<open>chat_or_complete\<close> calls of the run.
\<close>

record lm_server =
  call_chat_completions :: "string list \<Rightarrow> string \<Rightarrow> string \<Rightarrow> exn + string"
  call_completions :: "string list \<Rightarrow> string \<Rightarrow> exn + string"

definition llm_call :: "lm_server \<Rightarrow> string list \<Rightarrow> string \<Rightarrow> string \<Rightarrow> string \<Rightarrow> exn + string" where
  "llm_call srv calls system_prompt prompt mode =
     snd (chat_or_complete (call_chat_completions srv calls) (call_completions srv calls)
            system_prompt prompt mode)"

definition direct_prefix :: string where
  "direct_prefix = ''R'' @ e_acute @ ''sum'' @ e_acute @ '' direct''"

definition direct_prompt :: "string \<Rightarrow> string \<Rightarrow> string" where
  "direct_prompt user_prompt text_for_llm =
     user_prompt @ nl @ nl @ ''Texte '' @ a_grave @ '' r'' @ e_acute @ ''sumer:'' @ nl
     @ ''```text'' @ nl @ text_for_llm @ nl @ ''```''"

definition chunk_prompt :: "string \<Rightarrow> nat \<Rightarrow> nat \<Rightarrow> string \<Rightarrow> string" where
  "chunk_prompt user_prompt i n_chunks ch =
     user_prompt @ nl @ nl @ ''Tu r'' @ e_acute @ ''sumes le **bloc '' @ str_nat i @ ''/''
     @ str_nat n_chunks @ ''** ci-dessous.'' @ nl @ ''```text'' @ nl @ ch @ nl @ ''```''"

definition partial_summary :: "nat \<Rightarrow> string \<Rightarrow> string" where
  "partial_summary i smry = ''### Bloc '' @ str_nat i @ nl @ smry"

definition synth_prompt :: "string \<Rightarrow> string list \<Rightarrow> string" where
  "synth_prompt user_prompt chunk_summaries =
     user_prompt @ nl @ nl @ ''Voici les r'' @ e_acute @ ''sum'' @ e_acute
     @ ''s des blocs :'' @ nl @ py_join (nl @ nl) chunk_summaries @ nl @ nl
     @ ''Produis **un seul r'' @ e_acute @ ''sum'' @ e_acute @ '' final** structur''
     @ e_acute @ ''. Ne r'' @ e_acute @ ''p'' @ e_grave @ ''te pas bloc par bloc.''"

text \<open>
  The \<open>for i, ch in enumerate(chunks, 1)\<close> loop, over the pairs \<open>enumerate 1 chunks\<close>:
  \<open>calls\<close> lists the prompts given to \<open>chat_or_complete\<close> so far, \<open>partial_summaries\<close>
  is the list the loop appends to. A call that raises ends the loop, and the run, with its
  exception.
\<close>

fun summarize_chunks ::
  "lm_server \<Rightarrow> string \<Rightarrow> string \<Rightarrow> string \<Rightarrow> nat \<Rightarrow> (nat \<times> string) list \<Rightarrow>
   string list \<Rightarrow> string list \<Rightarrow> string list \<times> (exn + string list)" where
  "summarize_chunks srv system_prompt user_prompt mode n_chunks [] calls partial_summaries =
     (calls, Inr partial_summaries)"
| "summarize_chunks srv system_prompt user_prompt mode n_chunks ((i, ch) # rest) calls
     partial_summaries =
     (let p = chunk_prompt user_prompt i n_chunks ch in
      case llm_call srv calls system_prompt p mode of
        Inl e \<Rightarrow> (calls @ [p], Inl e)
      | Inr smry \<Rightarrow>
          summarize_chunks srv system_prompt user_prompt mode n_chunks rest
            (calls @ [p]) (partial_summaries @ [partial_summary i smry]))"

text \<open>
  \<open>generate_summary\<close> with \<open>status_container=None\<close>. The result is \<open>None\<close> when the run does
  not return, and otherwise the prompts given to \<open>chat_or_complete\<close>, in order, with the
  exception raised or the pair returned.
\<close>

definition generate_summary ::
  "tokenizers \<Rightarrow> lm_server \<Rightarrow> string \<Rightarrow> string \<Rightarrow> string \<Rightarrow> string \<Rightarrow> string \<Rightarrow> string \<Rightarrow>
   int \<Rightarrow> int \<Rightarrow> string \<Rightarrow> (string list \<times> (exn + string \<times> string list)) option" where
  "generate_summary libs srv text_for_llm system_prompt user_prompt api_mode_key
     token_backend hf_tokenizer_model chunk_size overlap mode_resume =
     (case count_tokens libs text_for_llm token_backend hf_tokenizer_model of
        Inl e \<Rightarrow> Some ([], Inl e)
      | Inr total_tokens \<Rightarrow>
          if prefix direct_prefix mode_resume \<or> total_tokens \<le> chunk_size then
            (let prompt = direct_prompt user_prompt text_for_llm in
             case llm_call srv [] system_prompt prompt api_mode_key of
               Inl e \<Rightarrow> Some ([prompt], Inl e)
             | Inr summary_text \<Rightarrow> Some ([prompt], Inr (summary_text, [])))
          else
            (case chunk_text_by_tokens libs text_for_llm chunk_size token_backend
                    hf_tokenizer_model overlap of
               None \<Rightarrow> None
             | Some (Inl e) \<Rightarrow> Some ([], Inl e)
             | Some (Inr chunks) \<Rightarrow>
                 (case summarize_chunks srv system_prompt user_prompt api_mode_key
                         (length chunks) (enumerate 1 chunks) [] [] of
                    (calls, Inl e) \<Rightarrow> Some (calls, Inl e)
                  | (calls, Inr chunk_summaries) \<Rightarrow>
                      (let sp = synth_prompt user_prompt chunk_summaries in
                       case llm_call srv calls system_prompt sp api_mode_key of
                         Inl e \<Rightarrow> Some (calls @ [sp], Inl e)
                       | Inr summary_text \<Rightarrow>
                           Some (calls @ [sp], Inr (summary_text, chunk_summaries))))))"

section \<open>Diarization\<close>

text \<open>
  \<open>_diarize_audio\<close> of \<open>audio_processing.py\<close>: \<open>hf_token\<close> is the module's \<open>HF_TOKEN\<close>; \<open>pipeline\<close> is the outcome of
  loading and running the Pyannote pipeline on the audio file, the speaker turns
  \<open>(start, end, speaker)\<close> in the order \<open>itertracks\<close> yields them, or an exception.
\<close>

type_synonym segment = "real \<times> real \<times> string \<times> string"

definition diarize_audio ::
  "string \<Rightarrow> (exn + (real \<times> real \<times> string) list) \<Rightarrow> string \<Rightarrow> exn + segment list" where
  "diarize_audio hf_token pipeline transcription =
     (if hf_token = [] then
        Inl (ValueError (''Token HuggingFace requis pour la diarisation. D'' @ e_acute
                         @ ''finissez HF_TOKEN.''))
      else
        (case pipeline of
           Inl e \<Rightarrow> Inl e
         | Inr turns \<Rightarrow>
             (let segments = map (\<lambda>(s, e, speaker). (s, e, speaker, [])) turns in
              if segments = [] then Inr [(0, 0, ''SPEAKER_00'', transcription)]
              else
                Inr (segments[0 :=
                       (fst (segments ! 0), fst (snd (segments ! 0)),
                        fst (snd (snd (segments ! 0))), transcription)]))))"

section \<open>Windows and example runs\<close>

text \<open>
  A window \<open>(start, end)\<close> of the token sequence stands for the slice \<open>ids[start:end]\<close> that
  the chunking loop appends.
\<close>

definition window_slice :: "'t list \<Rightarrow> int \<times> int \<Rightarrow> 't list" where
  "window_slice ids w = py_slice ids (fst w) (snd w)"

text \<open>
  Concrete collaborators for the example runs: no tokenizer library at all (every text is
  split at whitespace), a tokenizer that gives 14000 tokens for every text, a server that
  always answers \<open>ok\<close>, and a server whose chat endpoint answers the first \<open>k\<close> calls of a
  run and then times out.
\<close>

definition example_libs :: tokenizers where
  "example_libs = \<lparr>from_pretrained = (\<lambda>_. Inl (OtherError ''offline'')),
                    tiktoken_encode = (\<lambda>_. Inl (OtherError ''no tiktoken''))\<rparr>"


definition answering_server :: lm_server where
  "answering_server = \<lparr>call_chat_completions = (\<lambda>calls s u. Inr ''ok''),
                        call_completions = (\<lambda>calls p. Inr ''ok'')\<rparr>"


text \<open>
  Endpoints for single calls of \<open>chat_or_complete\<close>: a chat endpoint that answers HTTP 500,
  and completions endpoints that return a text, return the empty text, and cannot be
  reached.
\<close>

definition chat_http_500 :: "string \<Rightarrow> string \<Rightarrow> exn + string" where
  "chat_http_500 system_prompt user_prompt = Inl (HTTPError ''500 Server Error'')"

definition completion_text :: "string \<Rightarrow> exn + string" where
  "completion_text prompt = Inr ''summary''"

definition completion_empty :: "string \<Rightarrow> exn + string" where
  "completion_empty prompt = Inr []"

definition completion_refused :: "string \<Rightarrow> exn + string" where
  "completion_refused prompt = Inl (OtherError ''connection refused'')"

text \<open>The text \<open>a\<close>, no-break space (U+00A0), \<open>b\<close>.\<close>

definition nbsp_text :: string where
  "nbsp_text = [CHR ''a'', CHR 0xC2, CHR 0xA0, CHR ''b'']"

section \<open>Auxiliary facts\<close>

subsection \<open>The chunking loop\<close>

lemma chunk_loop_stall_aux:
  assumes "chunk_loop ids m ov start chunks = Some y"
  shows "\<not> (0 < m \<and> m \<le> ov \<and> ov + m < int (length ids) \<and> 0 \<le> start \<and> start \<le> ov)"
proof (rule chunk_loop.raw_induct
    [where P = "\<lambda>ids m ov start chunks y.
       \<not> (0 < m \<and> m \<le> ov \<and> ov + m < int (length ids) \<and> 0 \<le> start \<and> start \<le> ov)",
     OF _ assms])
  fix f :: "'a list \<Rightarrow> int \<Rightarrow> int \<Rightarrow> int \<Rightarrow> 'a list list \<Rightarrow> 'a list list option"
  fix ids max_tokens overlap start chunks y
  assume IH: "\<And>ids m ov start chunks y. f ids m ov start chunks = Some y \<Longrightarrow>
     \<not> (0 < m \<and> m \<le> ov \<and> ov + m < int (length ids) \<and> 0 \<le> start \<and> start \<le> ov)"
  assume body: "(let n = int (length ids) in
      if start < n then
        (let end = min (start + max_tokens) n;
             chunks' = chunks @ [py_slice ids start end]
         in if end \<ge> n then Some chunks'
            else f ids max_tokens overlap
                   (if end - overlap > 0 then end - overlap else end) chunks')
      else Some chunks) = Some y"
  show "\<not> (0 < max_tokens \<and> max_tokens \<le> overlap \<and> overlap + max_tokens < int (length ids)
      \<and> 0 \<le> start \<and> start \<le> overlap)"
  proof
    assume a: "0 < max_tokens \<and> max_tokens \<le> overlap \<and> overlap + max_tokens < int (length ids)
      \<and> 0 \<le> start \<and> start \<le> overlap"
    let ?e = "start + max_tokens"
    let ?s = "if 0 < ?e - overlap then ?e - overlap else ?e"
    from a have m: "min ?e (int (length ids)) = ?e" by simp
    from a have lt: "start < int (length ids)" "\<not> int (length ids) \<le> ?e" by simp_all
    from body have "f ids max_tokens overlap ?s (chunks @ [py_slice ids start ?e]) = Some y"
      unfolding Let_def m using lt by simp
    from IH[OF this] a show False by (simp split: if_splits)
  qed
qed

lemma chunk_loop_stall:
  "0 < m \<Longrightarrow> m \<le> ov \<Longrightarrow> ov + m < int (length ids) \<Longrightarrow> chunk_loop ids m ov 0 [] = None"
  using chunk_loop_stall_aux [of ids m ov 0 "[]"] by (cases "chunk_loop ids m ov 0 []") auto

lemma chunk_loop_nonpos_aux:
  assumes "chunk_loop ids m ov start chunks = Some y"
  shows "\<not> (ids \<noteq> [] \<and> m \<le> 0 \<and> 0 \<le> ov \<and> start \<le> 0)"
proof (rule chunk_loop.raw_induct
    [where P = "\<lambda>ids m ov start chunks y. \<not> (ids \<noteq> [] \<and> m \<le> 0 \<and> 0 \<le> ov \<and> start \<le> 0)",
     OF _ assms])
  fix f :: "'a list \<Rightarrow> int \<Rightarrow> int \<Rightarrow> int \<Rightarrow> 'a list list \<Rightarrow> 'a list list option"
  fix ids max_tokens overlap start chunks y
  assume IH: "\<And>ids m ov start chunks y. f ids m ov start chunks = Some y \<Longrightarrow>
     \<not> (ids \<noteq> [] \<and> m \<le> 0 \<and> 0 \<le> ov \<and> start \<le> 0)"
  assume body: "(let n = int (length ids) in
      if start < n then
        (let end = min (start + max_tokens) n;
             chunks' = chunks @ [py_slice ids start end]
         in if end \<ge> n then Some chunks'
            else f ids max_tokens overlap
                   (if end - overlap > 0 then end - overlap else end) chunks')
      else Some chunks) = Some y"
  show "\<not> (ids \<noteq> [] \<and> max_tokens \<le> 0 \<and> 0 \<le> overlap \<and> start \<le> 0)"
  proof
    assume a: "ids \<noteq> [] \<and> max_tokens \<le> 0 \<and> 0 \<le> overlap \<and> start \<le> 0"
    let ?e = "start + max_tokens"
    from a have n: "0 < int (length ids)" by simp
    with a have m: "min ?e (int (length ids)) = ?e" by linarith
    from a n have lt: "start < int (length ids)" "\<not> int (length ids) \<le> ?e" "\<not> 0 < ?e - overlap"
      by linarith+
    from body have "f ids max_tokens overlap ?e (chunks @ [py_slice ids start ?e]) = Some y"
      unfolding Let_def m using lt by simp
    from IH[OF this] a show False by simp
  qed
qed

lemma chunk_loop_nonpos:
  "ids \<noteq> [] \<Longrightarrow> m \<le> 0 \<Longrightarrow> 0 \<le> ov \<Longrightarrow> chunk_loop ids m ov 0 [] = None"
  using chunk_loop_nonpos_aux [of ids m ov 0 "[]"] by (cases "chunk_loop ids m ov 0 []") auto


lemma chunk_loop_windows:
  assumes "0 \<le> ov" "ov < m"
  shows "0 \<le> start \<Longrightarrow> start < int (length ids) \<Longrightarrow>
    \<exists>ws. chunk_loop ids m ov start chunks = Some (chunks @ map (window_slice ids) ws)
       \<and> ws \<noteq> [] \<and> hd ws = (start, min (start + m) (int (length ids)))
       \<and> snd (last ws) = int (length ids)
       \<and> (\<forall>w \<in> set ws. start \<le> fst w \<and> fst w < snd w \<and> snd w \<le> int (length ids)
                        \<and> snd w - fst w \<le> m)
       \<and> (\<forall>k. Suc k < length ws \<longrightarrow>
              fst (ws ! Suc k) = snd (ws ! k) - ov \<and> fst (ws ! k) < fst (ws ! Suc k)
              \<and> snd (ws ! k) < snd (ws ! Suc k))"
proof (induction "nat (int (length ids) - start)" arbitrary: start chunks rule: less_induct)
  case less
  let ?n = "int (length ids)"
  let ?e = "min (start + m) ?n"
  show ?case
  proof (cases "?n \<le> ?e")
    case True
    then have e: "?e = ?n" by simp
    have "chunk_loop ids m ov start chunks = Some (chunks @ [py_slice ids start ?e])"
      using less.prems True by (subst chunk_loop.simps) (simp add: Let_def)
    then have "chunk_loop ids m ov start chunks
        = Some (chunks @ map (window_slice ids) [(start, ?e)])"
      by (simp add: window_slice_def)
    moreover have "?e - start \<le> m" by simp
    ultimately show ?thesis
      using less.prems e by (intro exI[of _ "[(start, ?e)]"]) simp
  next
    case False
    then have e: "?e = start + m" and lt: "start + m < ?n" by simp_all
    let ?s = "start + m - ov"
    have s: "0 < ?s" "start < ?s" "?s < ?n" using assms less.prems lt by simp_all
    have step: "chunk_loop ids m ov start chunks
        = chunk_loop ids m ov ?s (chunks @ [py_slice ids start (start + m)])"
      using less.prems False s e by (subst chunk_loop.simps) (simp add: Let_def)
    have "nat (?n - ?s) < nat (?n - start)" using s by simp
    from less.hyps[OF this, of "chunks @ [py_slice ids start (start + m)]"] s
    obtain ws where ws:
      "chunk_loop ids m ov ?s (chunks @ [py_slice ids start (start + m)])
         = Some ((chunks @ [py_slice ids start (start + m)]) @ map (window_slice ids) ws)"
      "ws \<noteq> []" "hd ws = (?s, min (?s + m) ?n)" "snd (last ws) = ?n"
      "\<forall>w \<in> set ws. ?s \<le> fst w \<and> fst w < snd w \<and> snd w \<le> ?n \<and> snd w - fst w \<le> m"
      "\<forall>k. Suc k < length ws \<longrightarrow>
              fst (ws ! Suc k) = snd (ws ! k) - ov \<and> fst (ws ! k) < fst (ws ! Suc k)
              \<and> snd (ws ! k) < snd (ws ! Suc k)"
      by auto
    let ?ws = "(start, start + m) # ws"
    have 1: "chunk_loop ids m ov start chunks = Some (chunks @ map (window_slice ids) ?ws)"
      using step ws(1) by (simp add: window_slice_def)
    have 2: "hd ?ws = (start, ?e)" using e by simp
    have 3: "snd (last ?ws) = ?n" using ws(2,4) by simp
    have 4: "\<forall>w \<in> set ?ws. start \<le> fst w \<and> fst w < snd w \<and> snd w \<le> ?n \<and> snd w - fst w \<le> m"
      using ws(5) s lt assms by auto
    have hd0: "ws ! 0 = (?s, min (?s + m) ?n)" using ws(2,3) by (simp add: hd_conv_nth)
    have 5: "\<forall>k. Suc k < length ?ws \<longrightarrow>
              fst (?ws ! Suc k) = snd (?ws ! k) - ov \<and> fst (?ws ! k) < fst (?ws ! Suc k)
              \<and> snd (?ws ! k) < snd (?ws ! Suc k)"
    proof (intro allI impI)
      fix k assume k: "Suc k < length ?ws"
      show "fst (?ws ! Suc k) = snd (?ws ! k) - ov \<and> fst (?ws ! k) < fst (?ws ! Suc k)
              \<and> snd (?ws ! k) < snd (?ws ! Suc k)"
      proof (cases k)
        case 0
        then show ?thesis using hd0 s lt assms by simp
      next
        case (Suc j)
        with k have "Suc j < length ws" by simp
        with ws(6) have "fst (ws ! Suc j) = snd (ws ! j) - ov \<and> fst (ws ! j) < fst (ws ! Suc j)
              \<and> snd (ws ! j) < snd (ws ! Suc j)" by blast
        with Suc show ?thesis by simp
      qed
    qed
    have 0: "?ws \<noteq> []" by simp
    show ?thesis
      by (intro exI[of _ ?ws] conjI) (rule 0 1 2 3 4 5)+
  qed
qed



subsection \<open>Tokenization and decoding\<close>

lemma encode_approx_Inr: "\<exists>toks. encode_approx libs text = Inr toks"
  by (cases "tiktoken_encode libs text") (simp_all add: encode_approx_def try_except_def)

lemma encode_tokens_Inr: "\<exists>toks. snd (encode_tokens libs text backend hf_model_id) = Inr toks"
  using encode_approx_Inr [of libs "text"]
  by (auto simp: encode_tokens_def get_hf_tokenizer_def split: sum.splits prod.splits option.splits)

lemma count_tokens_Inr:
  "snd (encode_tokens libs text backend hf_model_id) = Inr ids \<Longrightarrow>
   count_tokens libs text backend hf_model_id = Inr (int (length ids))"
  by (simp add: count_tokens_def)






subsection \<open>The loop over the chunks and the chunked strategy\<close>

lemma summarize_chunks_success:
  "summarize_chunks srv sys user mode n ics calls partials = (calls', Inr ps') \<Longrightarrow>
   calls' = calls @ map (\<lambda>(i, ch). chunk_prompt user i n ch) ics \<and>
   (\<exists>sm. length sm = length ics \<and>
         ps' = partials @ map (\<lambda>((i, ch), s). partial_summary i s) (zip ics sm) \<and>
         (\<forall>j<length ics. llm_call srv (take (length calls + j) calls') sys
                            (calls' ! (length calls + j)) mode = Inr (sm ! j)))"
proof (induction ics arbitrary: calls partials)
  case Nil
  then show ?case by simp
next
  case (Cons a rest)
  obtain i ch where a: "a = (i, ch)" by (cases a)
  let ?p = "chunk_prompt user i n ch"
  from Cons.prems a obtain smry where
    c: "llm_call srv calls sys ?p mode = Inr smry" and
    r: "summarize_chunks srv sys user mode n rest (calls @ [?p])
          (partials @ [partial_summary i smry]) = (calls', Inr ps')"
    by (auto simp: Let_def split: sum.splits)
  from Cons.IH[OF r] obtain sm where
    1: "calls' = (calls @ [?p]) @ map (\<lambda>(i, ch). chunk_prompt user i n ch) rest" and
    2: "length sm = length rest" and
    3: "ps' = (partials @ [partial_summary i smry])
              @ map (\<lambda>((i, ch), s). partial_summary i s) (zip rest sm)" and
    4: "\<forall>j<length rest. llm_call srv (take (length (calls @ [?p]) + j) calls') sys
                            (calls' ! (length (calls @ [?p]) + j)) mode = Inr (sm ! j)"
    by blast
  have t0: "take (length calls) calls' = calls" "calls' ! length calls = ?p"
    using 1 by simp_all
  have 5: "\<forall>j<length (a # rest). llm_call srv (take (length calls + j) calls') sys
                            (calls' ! (length calls + j)) mode = Inr ((smry # sm) ! j)"
  proof (intro allI impI)
    fix j assume j: "j < length (a # rest)"
    show "llm_call srv (take (length calls + j) calls') sys
                            (calls' ! (length calls + j)) mode = Inr ((smry # sm) ! j)"
    proof (cases j)
      case 0
      then show ?thesis using t0 c by simp
    next
      case (Suc k)
      with j have "k < length rest" by simp
      with 4 have "llm_call srv (take (length (calls @ [?p]) + k) calls') sys
                            (calls' ! (length (calls @ [?p]) + k)) mode = Inr (sm ! k)" by blast
      with Suc show ?thesis by simp
    qed
  qed
  have 6: "calls' = calls @ map (\<lambda>(i, ch). chunk_prompt user i n ch) (a # rest)"
    using 1 a by simp
  have 7: "length (smry # sm) = length (a # rest)" using 2 by simp
  have 8: "ps' = partials @ map (\<lambda>((i, ch), s). partial_summary i s) (zip (a # rest) (smry # sm))"
    using 3 a by simp
  show ?case
    by (intro conjI exI[of _ "smry # sm"]) (rule 5 6 7 8)+
qed


lemma generate_summary_chunked:
  assumes "\<not> prefix direct_prefix mode_resume"
    and "count_tokens libs txt backend model = Inr total_tokens" "chunk_size < total_tokens"
    and "chunk_text_by_tokens libs txt chunk_size backend model ov = Some (Inr chunks)"
  shows "generate_summary libs srv txt sys user mode backend model chunk_size ov mode_resume
         = (case summarize_chunks srv sys user mode (length chunks) (enumerate 1 chunks) [] [] of
              (calls, Inl e) \<Rightarrow> Some (calls, Inl e)
            | (calls, Inr chunk_summaries) \<Rightarrow>
                (case llm_call srv calls sys (synth_prompt user chunk_summaries) mode of
                   Inl e \<Rightarrow> Some (calls @ [synth_prompt user chunk_summaries], Inl e)
                 | Inr summary_text \<Rightarrow>
                     Some (calls @ [synth_prompt user chunk_summaries],
                           Inr (summary_text, chunk_summaries))))"
  using assms by (simp add: generate_summary_def Let_def)


lemma summarize_chunks_raise:
  "summarize_chunks srv sys user mode n ics calls partials = (calls', Inl e) \<Longrightarrow>
   \<exists>k<length ics.
      calls' = calls @ take (Suc k) (map (\<lambda>(i, ch). chunk_prompt user i n ch) ics) \<and>
      llm_call srv (calls @ take k (map (\<lambda>(i, ch). chunk_prompt user i n ch) ics)) sys
        (map (\<lambda>(i, ch). chunk_prompt user i n ch) ics ! k) mode = Inl e"
proof (induction ics arbitrary: calls partials)
  case Nil
  then show ?case by simp
next
  case (Cons a rest)
  obtain i ch where a: "a = (i, ch)" by (cases a)
  let ?p = "chunk_prompt user i n ch"
  let ?ps = "map (\<lambda>(i, ch). chunk_prompt user i n ch) rest"
  show ?case
  proof (cases "llm_call srv calls sys ?p mode")
    case (Inl e')
    with Cons.prems a have "calls' = calls @ [?p]" "e' = e" by (simp_all add: Let_def)
    with Inl a show ?thesis by (intro exI[of _ 0]) simp
  next
    case (Inr s)
    with Cons.prems a have "summarize_chunks srv sys user mode n rest (calls @ [?p])
        (partials @ [partial_summary i s]) = (calls', Inl e)"
      by (simp add: Let_def)
    from Cons.IH[OF this] obtain k where k: "k < length rest"
      "calls' = (calls @ [?p]) @ take (Suc k) ?ps"
      "llm_call srv ((calls @ [?p]) @ take k ?ps) sys (?ps ! k) mode = Inl e"
      by blast
    with a show ?thesis by (intro exI[of _ "Suc k"]) simp
  qed
qed

lemma py_join_Cons:
  "py_join sep (x # xs) = (if xs = [] then x else x @ sep @ py_join sep xs)"
  by (cases xs) simp_all

lemma py_join_nth_occurs: "k < length xs \<Longrightarrow> \<exists>a c. py_join sep xs = a @ xs ! k @ c"
proof (induction xs arbitrary: k)
  case Nil
  then show ?case by simp
next
  case (Cons x xs)
  show ?case
  proof (cases k)
    case 0
    have "py_join sep (x # xs) = [] @ x @ (if xs = [] then [] else sep @ py_join sep xs)"
      by (simp add: py_join_Cons)
    with 0 show ?thesis by (metis nth_Cons_0)
  next
    case (Suc k')
    with Cons.prems have k': "k' < length xs" by simp
    then have ne: "xs \<noteq> []" by auto
    from Cons.IH[OF k'] obtain a c where "py_join sep xs = a @ xs ! k' @ c" by blast
    with ne have "py_join sep (x # xs) = (x @ sep @ a) @ xs ! k' @ c"
      by (simp add: py_join_Cons)
    with Suc show ?thesis by (metis nth_Cons_Suc)
  qed
qed

lemma py_join_nth_order:
  "j < k \<Longrightarrow> k < length xs \<Longrightarrow> \<exists>a b c. py_join sep xs = a @ xs ! j @ b @ xs ! k @ c"
proof (induction xs arbitrary: j k)
  case Nil
  then show ?case by simp
next
  case (Cons x xs)
  from Cons.prems obtain k' where k: "k = Suc k'" "k' < length xs"
    by (cases k) auto
  then have ne: "xs \<noteq> []" by auto
  show ?case
  proof (cases j)
    case 0
    from py_join_nth_occurs[OF k(2)] obtain a c where "py_join sep xs = a @ xs ! k' @ c"
      by blast
    with ne have "py_join sep (x # xs) = [] @ x @ (sep @ a) @ xs ! k' @ c"
      by (simp add: py_join_Cons)
    with 0 k show ?thesis by (metis nth_Cons_0 nth_Cons_Suc)
  next
    case (Suc j')
    with Cons.prems k have "j' < k'" by simp
    from Cons.IH[OF this k(2)] obtain a b c where
      "py_join sep xs = a @ xs ! j' @ b @ xs ! k' @ c" by blast
    with ne have "py_join sep (x # xs) = (x @ sep @ a) @ xs ! j' @ b @ xs ! k' @ c"
      by (simp add: py_join_Cons)
    with Suc k show ?thesis by (metis nth_Cons_Suc)
  qed
qed

text \<open>
  Every outcome of the chunked branch once the chunker has returned its chunks: either the
  call for some chunk raises, and the calls issued are those up to that chunk, or every
  chunk call returns and the synthesis call follows.
\<close>

lemma generate_summary_chunked_outcome:
  assumes "\<not> prefix direct_prefix mode_resume"
    and "count_tokens libs txt backend model = Inr total_tokens" "chunk_size < total_tokens"
    and "chunk_text_by_tokens libs txt chunk_size backend model ov = Some (Inr chunks)"
    and "ps = map (\<lambda>(i, ch). chunk_prompt user i (length chunks) ch) (enumerate 1 chunks)"
  shows "\<exists>calls out.
      generate_summary libs srv txt sys user mode backend model chunk_size ov mode_resume
        = Some (calls, out)
      \<and> ((\<exists>k e. k < length chunks \<and> calls = take (Suc k) ps \<and> out = Inl e
                \<and> llm_call srv (take k ps) sys (ps ! k) mode = Inl e)
         \<or> (\<exists>sm summaries.
               length sm = length chunks \<and> length summaries = length chunks
               \<and> (\<forall>k<length chunks.
                     llm_call srv (take k ps) sys (ps ! k) mode = Inr (sm ! k)
                     \<and> summaries ! k = ''### Bloc '' @ str_nat (Suc k) @ nl @ sm ! k)
               \<and> calls = ps @ [synth_prompt user summaries]
               \<and> out = (case llm_call srv ps sys (synth_prompt user summaries) mode of
                          Inl e \<Rightarrow> Inl e
                        | Inr summary_text \<Rightarrow> Inr (summary_text, summaries))))"
proof -
  let ?gs = "generate_summary libs srv txt sys user mode backend model chunk_size ov mode_resume"
  let ?ics = "enumerate 1 chunks"
  let ?n = "length chunks"
  obtain cs r where sc: "summarize_chunks srv sys user mode ?n ?ics [] [] = (cs, r)"
    by (cases "summarize_chunks srv sys user mode ?n ?ics [] []")
  note gs = generate_summary_chunked [OF assms(1-4), of srv sys user mode, unfolded sc]
  show ?thesis
  proof (cases r)
    case (Inl e)
    from summarize_chunks_raise [OF sc [unfolded Inl]] assms(5) obtain k where
      k: "k < ?n" "cs = take (Suc k) ps" "llm_call srv (take k ps) sys (ps ! k) mode = Inl e"
      by auto
    have "?gs = Some (cs, Inl e)" using gs Inl by simp
    with k show ?thesis by blast
  next
    case (Inr summaries)
    from summarize_chunks_success [OF sc [unfolded Inr]] assms(5) obtain sm where
      1: "cs = ps" and
      2: "length sm = ?n" and
      3: "summaries = map (\<lambda>((i, ch), s). partial_summary i s) (zip ?ics sm)" and
      4: "\<forall>j<?n. llm_call srv (take j cs) sys (cs ! j) mode = Inr (sm ! j)"
      by auto
    have 5: "length summaries = ?n" using 2 3 by simp
    have 6: "\<forall>k<?n. llm_call srv (take k ps) sys (ps ! k) mode = Inr (sm ! k)
                  \<and> summaries ! k = ''### Bloc '' @ str_nat (Suc k) @ nl @ sm ! k"
    proof (intro allI impI)
      fix k assume k: "k < ?n"
      have "summaries ! k = partial_summary (Suc k) (sm ! k)"
        using k 2 3 by (simp add: nth_enumerate_eq)
      then show "llm_call srv (take k ps) sys (ps ! k) mode = Inr (sm ! k)
                  \<and> summaries ! k = ''### Bloc '' @ str_nat (Suc k) @ nl @ sm ! k"
        using 4 k 1 by (simp add: partial_summary_def)
    qed
    have 7: "?gs = Some (ps @ [synth_prompt user summaries],
                case llm_call srv ps sys (synth_prompt user summaries) mode of
                  Inl e \<Rightarrow> Inl e | Inr summary_text \<Rightarrow> Inr (summary_text, summaries))"
      using gs Inr 1 by (simp split: sum.splits)
    show ?thesis
      using 2 5 6 7 by blast
  qed
qed

lemma sublist_mid: "sublist m (a @ m @ b)"
  unfolding sublist_def by blast


subsection \<open>The example runs\<close>

lemma py_split_abcd: "py_split ''a b c d'' = [''a'', ''b'', ''c'', ''d'']"
  by code_simp

lemma py_split_ab: "py_split ''a b'' = [''a'', ''b'']"
  by code_simp

lemma py_split_nbsp: "py_split nbsp_text = [''a'', ''b'']"
  by code_simp


lemma str_nat_small:
  "str_nat (Suc 0) = ''1''" "str_nat (Suc (Suc 0)) = ''2''" "str_nat (Suc (Suc (Suc 0))) = ''3''"
  by code_simp+

text \<open>
  A no-break space separates words: the text \<open>a\<close>, U+00A0, \<open>b\<close> counts two tokens when no
  tokenizer library is there.
\<close>

lemma nbsp_count: "count_tokens example_libs nbsp_text ''tiktoken'' ''m'' = Inr 2"
proof -
  have "nbsp_text \<noteq> []" by (simp add: nbsp_text_def)
  then show ?thesis
    by (simp add: count_tokens_def encode_tokens_def encode_approx_def try_except_def
        example_libs_def py_split_nbsp)
qed

lemma llm_call_answering:
  "llm_call answering_server calls ''sys'' p ''chat'' = Inr ''ok''"
  by (simp add: llm_call_def chat_or_complete_def try_chat_def answering_server_def)



lemma ex_count: "count_tokens example_libs ''a b c d'' ''tiktoken'' ''m'' = Inr 4"
  by (simp add: count_tokens_def encode_tokens_def encode_approx_def try_except_def
      example_libs_def py_split_abcd)

lemma ex_chunks: "chunk_text_by_tokens example_libs ''a b c d'' 2 ''tiktoken'' ''m'' 0
    = Some (Inr [''a b'', ''c d''])"
  by code_simp




section \<open>The claims\<close>

subsection \<open>Chunking\<close>

text \<open>
  C1 (fails on the code): the claim is that for every non-empty token sequence and every
  \<open>overlap \<ge> max_tokens > 0\<close> the chunking loop terminates, the window start advancing by at
  least one token per step. With \<open>max_tokens = overlap = 1000\<close>, both accepted by the input
  widgets of the application, and 2001 tokens, the loop reaches \<open>start = 1000\<close>, computes
  \<open>end = 2000\<close> and sets \<open>start = end - overlap = 1000\<close> again: it never returns.
\<close>

theorem chunk_loop_overlap_1000_diverges:
  "chunk_loop (replicate 2001 t) 1000 1000 0 [] = None"
  by (rule chunk_loop_stall) simp_all

text \<open>
  C2 (amended): the claim is that chunking fails with a configuration error when
  \<open>max_tokens \<le> 0\<close>. The chunker validates nothing and raises no such error (the application
  bounds the chunk size at its input widget instead). For a non-empty token sequence,
  \<open>max_tokens \<le> 0\<close> and \<open>overlap \<ge> 0\<close>, the loop never leaves \<open>start \<le> 0\<close>: chunking returns
  nothing at all, neither an error nor a partial result.
\<close>

theorem chunk_text_by_tokens_nonpositive_max_tokens:
  assumes "snd (encode_tokens libs txt backend hf_model_id) = Inr ids" and "ids \<noteq> []"
    and "max_tokens \<le> 0" and "0 \<le> overlap"
  shows "chunk_loop ids max_tokens overlap 0 [] = None
         \<and> chunk_text_by_tokens libs txt max_tokens backend hf_model_id overlap = None"
  using assms chunk_loop_nonpos [of ids max_tokens overlap]
  by (simp add: chunk_text_by_tokens_def)

theorem chunk_text_by_tokens_nonpositive_max_tokens_witness:
  "snd (encode_tokens example_libs ''a b c d'' ''tiktoken'' ''m'')
     = Inr [TokenWord ''a'', TokenWord ''b'', TokenWord ''c'', TokenWord ''d'']
   \<and> chunk_loop [TokenWord ''a'', TokenWord ''b'', TokenWord ''c'', TokenWord ''d''] (- 5) 200 0 [] = None
   \<and> chunk_text_by_tokens example_libs ''a b c d'' (- 5) ''tiktoken'' ''m'' 200 = None"
proof -
  have enc: "snd (encode_tokens example_libs ''a b c d'' ''tiktoken'' ''m'')
     = Inr [TokenWord ''a'', TokenWord ''b'', TokenWord ''c'', TokenWord ''d'']"
    by (simp add: encode_tokens_def encode_approx_def try_except_def example_libs_def
        py_split_abcd)
  from chunk_text_by_tokens_nonpositive_max_tokens [OF enc, of "- 5" 200] enc
  show ?thesis by simp
qed

theorem chunk_text_by_tokens_zero_max_tokens_no_error:
  "chunk_text_by_tokens example_libs ''a b c d'' 0 ''tiktoken'' ''m'' 200 = None"
proof -
  have "snd (encode_tokens example_libs ''a b c d'' ''tiktoken'' ''m'')
     = Inr [TokenWord ''a'', TokenWord ''b'', TokenWord ''c'', TokenWord ''d'']"
    by (simp add: encode_tokens_def encode_approx_def try_except_def example_libs_def
        py_split_abcd)
  moreover have "chunk_loop [TokenWord ''a'', TokenWord ''b'', TokenWord ''c'', TokenWord ''d''] 0 200 0 [] = None"
    by (rule chunk_loop_nonpos) simp_all
  ultimately show ?thesis by (simp add: chunk_text_by_tokens_def)
qed

text \<open>
  C4: for every non-empty token sequence and \<open>0 < overlap < max_tokens\<close> the loop returns
  the slices of a non-empty list of windows \<open>(start, end)\<close>, in document order: the first
  starts at 0, the last ends at the end of the sequence, every window lies inside the
  sequence, holds at most \<open>max_tokens\<close> tokens and is the corresponding run of tokens, and each
  window starts exactly \<open>overlap\<close> tokens before the end of the one before it, further on
  than that one started, and ends further on than that one ended: consecutive chunks share
  exactly \<open>overlap\<close> tokens.
\<close>

theorem chunk_loop_windows_overlap:
  assumes "ids \<noteq> []" and "0 < overlap" and "overlap < max_tokens"
  shows "\<exists>ws. chunk_loop ids max_tokens overlap 0 [] = Some (map (window_slice ids) ws)
       \<and> ws \<noteq> [] \<and> fst (hd ws) = 0 \<and> snd (last ws) = int (length ids)
       \<and> (\<forall>w \<in> set ws. 0 \<le> fst w \<and> fst w < snd w \<and> snd w \<le> int (length ids)
                        \<and> snd w - fst w \<le> max_tokens
                        \<and> window_slice ids w
                            = take (nat (snd w - fst w)) (drop (nat (fst w)) ids))
       \<and> (\<forall>k. Suc k < length ws \<longrightarrow>
              fst (ws ! Suc k) = snd (ws ! k) - overlap \<and> fst (ws ! k) < fst (ws ! Suc k)
              \<and> snd (ws ! k) < snd (ws ! Suc k))"
proof -
  have "0 \<le> overlap" "(0::int) \<le> 0" "0 < int (length ids)" using assms by simp_all
  from chunk_loop_windows [OF this(1) assms(3) this(2,3), of "[]"]
  obtain ws where ws:
    "chunk_loop ids max_tokens overlap 0 [] = Some ([] @ map (window_slice ids) ws)"
    "ws \<noteq> []" "hd ws = (0, min (0 + max_tokens) (int (length ids)))"
    "snd (last ws) = int (length ids)"
    "\<forall>w \<in> set ws. 0 \<le> fst w \<and> fst w < snd w \<and> snd w \<le> int (length ids)
                        \<and> snd w - fst w \<le> max_tokens"
    "\<forall>k. Suc k < length ws \<longrightarrow>
              fst (ws ! Suc k) = snd (ws ! k) - overlap \<and> fst (ws ! k) < fst (ws ! Suc k)
              \<and> snd (ws ! k) < snd (ws ! Suc k)"
    by blast
  have 1: "chunk_loop ids max_tokens overlap 0 [] = Some (map (window_slice ids) ws)"
    using ws(1) by simp
  have 2: "fst (hd ws) = 0" using ws(3) by simp
  have 3: "\<forall>w \<in> set ws. 0 \<le> fst w \<and> fst w < snd w \<and> snd w \<le> int (length ids)
                        \<and> snd w - fst w \<le> max_tokens
                        \<and> window_slice ids w
                            = take (nat (snd w - fst w)) (drop (nat (fst w)) ids)"
  proof
    fix w assume "w \<in> set ws"
    with ws(5) have b: "0 \<le> fst w" "fst w < snd w" "snd w \<le> int (length ids)"
      "snd w - fst w \<le> max_tokens" by auto
    then have "window_slice ids w = take (nat (snd w - fst w)) (drop (nat (fst w)) ids)"
      by (simp add: window_slice_def py_slice_def py_index_def Let_def nat_diff_distrib)
    with b show "0 \<le> fst w \<and> fst w < snd w \<and> snd w \<le> int (length ids)
                        \<and> snd w - fst w \<le> max_tokens
                        \<and> window_slice ids w
                            = take (nat (snd w - fst w)) (drop (nat (fst w)) ids)"
      by simp
  qed
  show ?thesis
    by (intro exI[of _ ws] conjI) (rule 1 2 3 ws(2) ws(4) ws(6))+
qed

theorem chunk_loop_windows_overlap_witness:
  "[1, 2, 3, 4, 5, 6, 7, 8, 9, 10 :: int] \<noteq> [] \<and> (0::int) < 1 \<and> (1::int) < 4
   \<and> chunk_loop [1, 2, 3, 4, 5, 6, 7, 8, 9, 10 :: int] 4 1 0 []
       = Some [[1, 2, 3, 4], [4, 5, 6, 7], [7, 8, 9, 10]]
   \<and> (\<exists>ws. Some [[1, 2, 3, 4], [4, 5, 6, 7], [7, 8, 9, 10]]
             = Some (map (window_slice [1, 2, 3, 4, 5, 6, 7, 8, 9, 10 :: int]) ws)
          \<and> ws \<noteq> [] \<and> fst (hd ws) = 0 \<and> snd (last ws) = 10)"
proof -
  have h: "[1, 2, 3, 4, 5, 6, 7, 8, 9, 10 :: int] \<noteq> []" "(0::int) < 1" "(1::int) < 4"
    by simp_all
  have run: "chunk_loop [1, 2, 3, 4, 5, 6, 7, 8, 9, 10 :: int] 4 1 0 []
       = Some [[1, 2, 3, 4], [4, 5, 6, 7], [7, 8, 9, 10]]"
    by code_simp
  from chunk_loop_windows_overlap [OF h] obtain ws where
    "chunk_loop [1, 2, 3, 4, 5, 6, 7, 8, 9, 10 :: int] 4 1 0 []
       = Some (map (window_slice [1, 2, 3, 4, 5, 6, 7, 8, 9, 10 :: int]) ws)"
    "ws \<noteq> []" "fst (hd ws) = 0"
    "snd (last ws) = int (length [1, 2, 3, 4, 5, 6, 7, 8, 9, 10 :: int])"
    by blast
  then have "Some [[1, 2, 3, 4], [4, 5, 6, 7], [7, 8, 9, 10]]
             = Some (map (window_slice [1, 2, 3, 4, 5, 6, 7, 8, 9, 10 :: int]) ws)
          \<and> ws \<noteq> [] \<and> fst (hd ws) = 0 \<and> snd (last ws) = 10"
    using run by simp
  then have e: "\<exists>ws. Some [[1, 2, 3, 4], [4, 5, 6, 7], [7, 8, 9, 10]]
             = Some (map (window_slice [1, 2, 3, 4, 5, 6, 7, 8, 9, 10 :: int]) ws)
          \<and> ws \<noteq> [] \<and> fst (hd ws) = 0 \<and> snd (last ws) = 10"
    by (rule exI)
  show ?thesis
    by (intro conjI) (rule h run e)+
qed

subsection \<open>Summary generation\<close>

text \<open>
  C5: when the selection mode is the direct one, whatever the token count, and also when
  the token count of the text is at most the chunk size, \<open>generate_summary\<close> issues exactly
  one summarization call, whose prompt contains the whole input text, and its result is
  the exception of that call or its answer with an empty list of partial summaries.
\<close>

theorem generate_summary_direct:
  assumes "prefix direct_prefix mode_resume
           \<or> (\<exists>t\<le>chunk_size. count_tokens libs txt backend model = Inr t)"
  shows "generate_summary libs srv txt sys user mode backend model chunk_size ov mode_resume
         = Some ([direct_prompt user txt],
                 case llm_call srv [] sys (direct_prompt user txt) mode of
                   Inl e \<Rightarrow> Inl e | Inr s \<Rightarrow> Inr (s, []))
         \<and> sublist txt (direct_prompt user txt)"
proof -
  obtain ids where ids: "snd (encode_tokens libs txt backend model) = Inr ids"
    using encode_tokens_Inr by blast
  then have c: "count_tokens libs txt backend model = Inr (int (length ids))"
    by (rule count_tokens_Inr)
  with assms have d: "prefix direct_prefix mode_resume \<or> int (length ids) \<le> chunk_size"
    by auto
  have "sublist txt (direct_prompt user txt)"
    unfolding direct_prompt_def sublist_def
    by (intro exI[of _ "user @ nl @ nl @ ''Texte '' @ a_grave @ '' r'' @ e_acute @ ''sumer:''
          @ nl @ ''```text'' @ nl"] exI[of _ "nl @ ''```''"]) simp
  moreover have "generate_summary libs srv txt sys user mode backend model chunk_size ov mode_resume
         = Some ([direct_prompt user txt],
                 case llm_call srv [] sys (direct_prompt user txt) mode of
                   Inl e \<Rightarrow> Inl e | Inr s \<Rightarrow> Inr (s, []))"
    using c d by (auto simp: generate_summary_def Let_def split: sum.splits)
  ultimately show ?thesis by simp
qed

text \<open>
  Two runs on the four-token text \<open>a b c d\<close>: the direct mode with a chunk size of 2, and the
  block mode with a chunk size of 6000. Each issues the one direct call and returns no
  partial summaries.
\<close>

theorem generate_summary_direct_witness:
  "generate_summary example_libs answering_server ''a b c d'' ''sys'' ''u'' ''chat''
     ''tiktoken'' ''m'' 2 0 (direct_prefix @ '' (1 bloc)'')
     = Some ([direct_prompt ''u'' ''a b c d''], Inr (''ok'', []))
   \<and> generate_summary example_libs answering_server ''a b c d'' ''sys'' ''u'' ''chat''
     ''tiktoken'' ''m'' 6000 200 ''blocs''
     = Some ([direct_prompt ''u'' ''a b c d''], Inr (''ok'', []))"
proof -
  have call: "llm_call answering_server [] ''sys'' (direct_prompt ''u'' ''a b c d'') ''chat''
      = Inr ''ok''"
    by (simp add: llm_call_def chat_or_complete_def try_chat_def answering_server_def)
  have h1: "prefix direct_prefix (direct_prefix @ '' (1 bloc)'')
     \<or> (\<exists>t\<le>2. count_tokens example_libs ''a b c d'' ''tiktoken'' ''m'' = Inr t)"
    by simp
  have h2: "prefix direct_prefix ''blocs''
     \<or> (\<exists>t\<le>6000. count_tokens example_libs ''a b c d'' ''tiktoken'' ''m'' = Inr t)"
    by (simp add: ex_count)
  show ?thesis
    using generate_summary_direct [OF h1, of answering_server "''sys''" "''u''" "''chat''" 0]
      generate_summary_direct [OF h2, of answering_server "''sys''" "''u''" "''chat''" 200]
    by (simp add: call)
qed

text \<open>
  C6: whenever the chunked strategy runs, the outcome is one of these. The chunker does not
  return, or the decoding raises, and no call is issued. Or the call for some chunk raises:
  the calls issued are those for the chunks up to it, in chunk order, and no synthesis call.
  Or every per-chunk call returns: then the calls are the per-chunk calls in chunk order
  followed by exactly one synthesis call, issued last; the \<open>k\<close>-th partial summary is
  \<open>### Bloc k\<close>, a line feed and the answer to the call for chunk \<open>k\<close>; the synthesis prompt
  is the user prompt, its line announcing the summaries of the blocks, the partial summaries
  joined by blank lines in list order and the closing instruction, so the answer for an
  earlier chunk stands before the answer for a later one; and the final summary, when one
  is returned, is the answer to that synthesis call.
\<close>

theorem generate_summary_chunked_order:
  assumes "\<not> prefix direct_prefix mode_resume"
    and "count_tokens libs txt backend model = Inr total_tokens" "chunk_size < total_tokens"
  shows "case chunk_text_by_tokens libs txt chunk_size backend model ov of
      None \<Rightarrow>
        generate_summary libs srv txt sys user mode backend model chunk_size ov mode_resume
          = None
    | Some (Inl e) \<Rightarrow>
        generate_summary libs srv txt sys user mode backend model chunk_size ov mode_resume
          = Some ([], Inl e)
    | Some (Inr chunks) \<Rightarrow>
        (let ps = map (\<lambda>(i, ch). chunk_prompt user i (length chunks) ch) (enumerate 1 chunks)
         in \<exists>calls out.
           generate_summary libs srv txt sys user mode backend model chunk_size ov mode_resume
             = Some (calls, out)
           \<and> ((\<exists>k e. k < length chunks \<and> calls = take (Suc k) ps \<and> out = Inl e
                     \<and> llm_call srv (take k ps) sys (ps ! k) mode = Inl e)
              \<or> (\<exists>sm summaries sp.
                    length sm = length chunks \<and> length summaries = length chunks
                    \<and> (\<forall>k<length chunks.
                          llm_call srv (take k ps) sys (ps ! k) mode = Inr (sm ! k)
                          \<and> summaries ! k = ''### Bloc '' @ str_nat (Suc k) @ nl @ sm ! k)
                    \<and> sp = user @ nl @ nl @ ''Voici les r'' @ e_acute @ ''sum'' @ e_acute
                           @ ''s des blocs :'' @ nl @ py_join (nl @ nl) summaries @ nl @ nl
                           @ ''Produis **un seul r'' @ e_acute @ ''sum'' @ e_acute
                           @ '' final** structur'' @ e_acute @ ''. Ne r'' @ e_acute @ ''p''
                           @ e_grave @ ''te pas bloc par bloc.''
                    \<and> (\<forall>j k. j < k \<and> k < length chunks \<longrightarrow>
                          (\<exists>a b c. sp = a @ sm ! j @ b @ sm ! k @ c))
                    \<and> calls = ps @ [sp]
                    \<and> out = (case llm_call srv ps sys sp mode of
                               Inl e \<Rightarrow> Inl e
                             | Inr summary_text \<Rightarrow> Inr (summary_text, summaries)))))"
proof (cases "chunk_text_by_tokens libs txt chunk_size backend model ov")
  case None
  then show ?thesis using assms by (simp add: generate_summary_def)
next
  case (Some r)
  show ?thesis
  proof (cases r)
    case (Inl e)
    then show ?thesis using Some assms by (simp add: generate_summary_def)
  next
    case (Inr chunks)
    let ?gs = "generate_summary libs srv txt sys user mode backend model chunk_size ov
                 mode_resume"
    let ?ps = "map (\<lambda>(i, ch). chunk_prompt user i (length chunks) ch) (enumerate 1 chunks)"
    let ?n = "length chunks"
    have ct: "chunk_text_by_tokens libs txt chunk_size backend model ov = Some (Inr chunks)"
      using Some Inr by simp
    from generate_summary_chunked_outcome [OF assms ct refl, of srv sys user mode]
    obtain calls out where gs: "?gs = Some (calls, out)" and
      d: "(\<exists>k e. k < ?n \<and> calls = take (Suc k) ?ps \<and> out = Inl e
                \<and> llm_call srv (take k ?ps) sys (?ps ! k) mode = Inl e)
         \<or> (\<exists>sm summaries.
               length sm = ?n \<and> length summaries = ?n
               \<and> (\<forall>k<?n. llm_call srv (take k ?ps) sys (?ps ! k) mode = Inr (sm ! k)
                     \<and> summaries ! k = ''### Bloc '' @ str_nat (Suc k) @ nl @ sm ! k)
               \<and> calls = ?ps @ [synth_prompt user summaries]
               \<and> out = (case llm_call srv ?ps sys (synth_prompt user summaries) mode of
                          Inl e \<Rightarrow> Inl e
                        | Inr summary_text \<Rightarrow> Inr (summary_text, summaries)))"
      by blast
    let ?A' = "\<lambda>calls out. \<exists>k e. k < ?n \<and> calls = take (Suc k) ?ps \<and> out = Inl e
                \<and> llm_call srv (take k ?ps) sys (?ps ! k) mode = Inl e"
    let ?B' = "\<lambda>calls out. \<exists>sm summaries sp.
                    length sm = ?n \<and> length summaries = ?n
                    \<and> (\<forall>k<?n.
                          llm_call srv (take k ?ps) sys (?ps ! k) mode = Inr (sm ! k)
                          \<and> summaries ! k = ''### Bloc '' @ str_nat (Suc k) @ nl @ sm ! k)
                    \<and> sp = user @ nl @ nl @ ''Voici les r'' @ e_acute @ ''sum'' @ e_acute
                           @ ''s des blocs :'' @ nl @ py_join (nl @ nl) summaries @ nl @ nl
                           @ ''Produis **un seul r'' @ e_acute @ ''sum'' @ e_acute
                           @ '' final** structur'' @ e_acute @ ''. Ne r'' @ e_acute @ ''p''
                           @ e_grave @ ''te pas bloc par bloc.''
                    \<and> (\<forall>j k. j < k \<and> k < ?n \<longrightarrow>
                          (\<exists>a b c. sp = a @ sm ! j @ b @ sm ! k @ c))
                    \<and> calls = ?ps @ [sp]
                    \<and> out = (case llm_call srv ?ps sys sp mode of
                               Inl e \<Rightarrow> Inl e
                             | Inr summary_text \<Rightarrow> Inr (summary_text, summaries))"
    let ?A = "?A' calls out"
    let ?B = "?B' calls out"
    have "?A \<or> ?B"
    proof (rule disjE [OF d])
      assume ?A
      then show ?thesis ..
    next
      assume "\<exists>sm summaries.
               length sm = ?n \<and> length summaries = ?n
               \<and> (\<forall>k<?n. llm_call srv (take k ?ps) sys (?ps ! k) mode = Inr (sm ! k)
                     \<and> summaries ! k = ''### Bloc '' @ str_nat (Suc k) @ nl @ sm ! k)
               \<and> calls = ?ps @ [synth_prompt user summaries]
               \<and> out = (case llm_call srv ?ps sys (synth_prompt user summaries) mode of
                          Inl e \<Rightarrow> Inl e
                        | Inr summary_text \<Rightarrow> Inr (summary_text, summaries))"
      then obtain sm summaries where
        1: "length sm = ?n" and 2: "length summaries = ?n" and
        3: "\<forall>k<?n. llm_call srv (take k ?ps) sys (?ps ! k) mode = Inr (sm ! k)
                     \<and> summaries ! k = ''### Bloc '' @ str_nat (Suc k) @ nl @ sm ! k" and
        4: "calls = ?ps @ [synth_prompt user summaries]" and
        5: "out = (case llm_call srv ?ps sys (synth_prompt user summaries) mode of
                          Inl e \<Rightarrow> Inl e
                        | Inr summary_text \<Rightarrow> Inr (summary_text, summaries))"
        by blast
      let ?pre = "user @ nl @ nl @ ''Voici les r'' @ e_acute @ ''sum'' @ e_acute
                    @ ''s des blocs :'' @ nl"
      let ?post = "nl @ nl @ ''Produis **un seul r'' @ e_acute @ ''sum'' @ e_acute
                    @ '' final** structur'' @ e_acute @ ''. Ne r'' @ e_acute @ ''p''
                    @ e_grave @ ''te pas bloc par bloc.''"
      have sp: "synth_prompt user summaries = ?pre @ py_join (nl @ nl) summaries @ ?post"
        by (simp add: synth_prompt_def)
      have 6: "\<forall>j k. j < k \<and> k < ?n \<longrightarrow>
                 (\<exists>a b c. synth_prompt user summaries = a @ sm ! j @ b @ sm ! k @ c)"
      proof (intro allI impI)
        fix j k assume jk: "j < k \<and> k < ?n"
        then have "j < k" "k < length summaries" "j < ?n" "k < ?n" using 2 by simp_all
        from py_join_nth_order [OF this(1,2), of "nl @ nl"] obtain a b c where
          "py_join (nl @ nl) summaries = a @ summaries ! j @ b @ summaries ! k @ c"
          by blast
        moreover have "summaries ! j = ''### Bloc '' @ str_nat (Suc j) @ nl @ sm ! j"
          "summaries ! k = ''### Bloc '' @ str_nat (Suc k) @ nl @ sm ! k"
          using 3 \<open>j < ?n\<close> \<open>k < ?n\<close> by simp_all
        ultimately have eq: "synth_prompt user summaries
            = (?pre @ a @ ''### Bloc '' @ str_nat (Suc j) @ nl) @ sm ! j
              @ (b @ ''### Bloc '' @ str_nat (Suc k) @ nl) @ sm ! k @ (c @ ?post)"
          using sp by simp
        show "\<exists>a b c. synth_prompt user summaries = a @ sm ! j @ b @ sm ! k @ c"
          by (rule exI, rule exI, rule exI, rule eq)
      qed
      have 7: "synth_prompt user summaries = user @ nl @ nl @ ''Voici les r'' @ e_acute @ ''sum''
                           @ e_acute
                           @ ''s des blocs :'' @ nl @ py_join (nl @ nl) summaries @ nl @ nl
                           @ ''Produis **un seul r'' @ e_acute @ ''sum'' @ e_acute
                           @ '' final** structur'' @ e_acute @ ''. Ne r'' @ e_acute @ ''p''
                           @ e_grave @ ''te pas bloc par bloc.''"
        by (simp add: synth_prompt_def)
      have ?B
        by (intro exI[of _ sm] exI[of _ summaries] exI[of _ "synth_prompt user summaries"]
            conjI) (rule 1 2 3 4 5 6 7)+
      then show ?thesis ..
    qed
    then have fin: "\<exists>calls out. ?gs = Some (calls, out) \<and> (?A' calls out \<or> ?B' calls out)"
      using gs by (intro exI[of _ calls] exI[of _ out] conjI)
    show ?thesis
      unfolding ct option.case sum.case Let_def by (rule fin)
  qed
qed

text \<open>
  The run on \<open>a b c d\<close> with a chunk size of 2 and a server that always answers \<open>ok\<close>: two
  per-chunk calls, then the synthesis call over \<open>### Bloc 1\<close> and \<open>### Bloc 2\<close> in this order.
\<close>

theorem generate_summary_chunked_order_witness:
  "generate_summary example_libs answering_server ''a b c d'' ''sys'' ''u'' ''chat''
     ''tiktoken'' ''m'' 2 0 ''blocs''
   = Some ([chunk_prompt ''u'' 1 2 ''a b'', chunk_prompt ''u'' 2 2 ''c d'',
            ''u'' @ nl @ nl @ ''Voici les r'' @ e_acute @ ''sum'' @ e_acute
            @ ''s des blocs :'' @ nl
            @ ''### Bloc 1'' @ nl @ ''ok'' @ nl @ nl @ ''### Bloc 2'' @ nl @ ''ok'' @ nl @ nl
            @ ''Produis **un seul r'' @ e_acute @ ''sum'' @ e_acute
            @ '' final** structur'' @ e_acute @ ''. Ne r'' @ e_acute @ ''p''
            @ e_grave @ ''te pas bloc par bloc.''],
           Inr (''ok'', [''### Bloc 1'' @ nl @ ''ok'', ''### Bloc 2'' @ nl @ ''ok'']))"
proof -
  let ?gs = "generate_summary example_libs answering_server ''a b c d'' ''sys'' ''u'' ''chat''
     ''tiktoken'' ''m'' 2 0 ''blocs''"
  let ?chunks = "[''a b'', ''c d'']"
  let ?ps = "map (\<lambda>(i, ch). chunk_prompt ''u'' i (length ?chunks) ch) (enumerate 1 ?chunks)"
  have h1: "\<not> prefix direct_prefix ''blocs''" by (simp add: direct_prefix_def)
  have h3: "(2::int) < 4" by simp
  have ps: "?ps = [chunk_prompt ''u'' 1 2 ''a b'', chunk_prompt ''u'' 2 2 ''c d'']"
    by (simp add: enumerate_eq_zip eval_nat_numeral)
  note th = generate_summary_chunked_order
    [OF h1 ex_count h3, of answering_server "''sys''" "''u''" "''chat''" 0,
     unfolded ex_chunks option.case sum.case Let_def]
  from th obtain calls out where gs: "?gs = Some (calls, out)" and
    d: "(\<exists>k e. k < length ?chunks \<and> calls = take (Suc k) ?ps \<and> out = Inl e
           \<and> llm_call answering_server (take k ?ps) ''sys'' (?ps ! k) ''chat'' = Inl e)
      \<or> (\<exists>sm summaries sp.
            length sm = length ?chunks \<and> length summaries = length ?chunks
            \<and> (\<forall>k<length ?chunks.
                  llm_call answering_server (take k ?ps) ''sys'' (?ps ! k) ''chat''
                    = Inr (sm ! k)
                  \<and> summaries ! k = ''### Bloc '' @ str_nat (Suc k) @ nl @ sm ! k)
            \<and> sp = ''u'' @ nl @ nl @ ''Voici les r'' @ e_acute @ ''sum'' @ e_acute
                   @ ''s des blocs :'' @ nl @ py_join (nl @ nl) summaries @ nl @ nl
                   @ ''Produis **un seul r'' @ e_acute @ ''sum'' @ e_acute
                   @ '' final** structur'' @ e_acute @ ''. Ne r'' @ e_acute @ ''p''
                   @ e_grave @ ''te pas bloc par bloc.''
            \<and> (\<forall>j k. j < k \<and> k < length ?chunks \<longrightarrow>
                  (\<exists>a b c. sp = a @ sm ! j @ b @ sm ! k @ c))
            \<and> calls = ?ps @ [sp]
            \<and> out = (case llm_call answering_server ?ps ''sys'' sp ''chat'' of
                       Inl e \<Rightarrow> Inl e
                     | Inr summary_text \<Rightarrow> Inr (summary_text, summaries)))"
    by (elim exE conjE) (rule that)
  from d show ?thesis
  proof (elim disjE exE conjE)
    fix k e
    assume "llm_call answering_server (take k ?ps) ''sys'' (?ps ! k) ''chat'' = Inl e"
    then show ?thesis by (simp add: llm_call_answering)
  next
    fix sm summaries sp
    assume len: "length sm = length ?chunks" "length summaries = length ?chunks"
      and nth: "\<forall>k<length ?chunks.
                  llm_call answering_server (take k ?ps) ''sys'' (?ps ! k) ''chat''
                    = Inr (sm ! k)
                  \<and> summaries ! k = ''### Bloc '' @ str_nat (Suc k) @ nl @ sm ! k"
      and sp: "sp = ''u'' @ nl @ nl @ ''Voici les r'' @ e_acute @ ''sum'' @ e_acute
                   @ ''s des blocs :'' @ nl @ py_join (nl @ nl) summaries @ nl @ nl
                   @ ''Produis **un seul r'' @ e_acute @ ''sum'' @ e_acute
                   @ '' final** structur'' @ e_acute @ ''. Ne r'' @ e_acute @ ''p''
                   @ e_grave @ ''te pas bloc par bloc.''"
      and calls: "calls = ?ps @ [sp]"
      and out: "out = (case llm_call answering_server ?ps ''sys'' sp ''chat'' of
                       Inl e \<Rightarrow> Inl e
                     | Inr summary_text \<Rightarrow> Inr (summary_text, summaries))"
    from nth have "Inr ''ok'' = (Inr (sm ! 0) :: exn + string)
        \<and> summaries ! 0 = ''### Bloc '' @ str_nat (Suc 0) @ nl @ sm ! 0"
      "Inr ''ok'' = (Inr (sm ! 1) :: exn + string)
        \<and> summaries ! 1 = ''### Bloc '' @ str_nat (Suc 1) @ nl @ sm ! 1"
      unfolding llm_call_answering by simp_all
    then have s0: "summaries ! 0 = ''### Bloc 1'' @ nl @ ''ok''"
      and s1: "summaries ! 1 = ''### Bloc 2'' @ nl @ ''ok''"
      using str_nat_small by simp_all
    from len(2) obtain x y where xy: "summaries = [x, y]"
      by (auto simp: length_Suc_conv)
    with s0 s1 have summaries: "summaries = [''### Bloc 1'' @ nl @ ''ok'', ''### Bloc 2'' @ nl @ ''ok'']"
      by simp
    have out': "out = Inr (''ok'', summaries)"
      using out by (simp add: llm_call_answering)
    show ?thesis
      unfolding gs calls out' sp ps summaries by simp
  qed
qed







subsection \<open>The chat and completion endpoints\<close>

text \<open>
  C8 (amended): in \<open>auto\<close> mode \<open>chat_or_complete\<close> calls the chat endpoint first and the
  completions endpoint, if at all, after it; when the chat endpoint raises and the
  completions endpoint returns a non-empty text, that text is returned; when both raise, a
  single \<open>ValueError\<close> is raised whose message contains the text of both exceptions. The
  claim holds for every successful completions call only when its text is not empty: an
  empty text is not returned, see below.
\<close>

theorem chat_or_complete_auto:
  "fst (chat_or_complete call_chat call_compl sys user ''auto'')
      \<in> {[ChatCompletions], [ChatCompletions, Completions]}
   \<and> (call_chat sys user = Inl e1 \<and> call_compl (merged_prompt sys user) = Inr r \<and> r \<noteq> []
      \<longrightarrow> chat_or_complete call_chat call_compl sys user ''auto''
          = ([ChatCompletions, Completions], Inr r))
   \<and> (call_chat sys user = Inl e1 \<and> call_compl (merged_prompt sys user) = Inl e2
      \<longrightarrow> (\<exists>msg. chat_or_complete call_chat call_compl sys user ''auto''
                   = ([ChatCompletions, Completions], Inl (ValueError msg))
                 \<and> sublist (str_exn e1) msg \<and> sublist (str_exn e2) msg))"
proof (intro conjI impI)
  show "fst (chat_or_complete call_chat call_compl sys user ''auto'')
      \<in> {[ChatCompletions], [ChatCompletions, Completions]}"
    by (auto simp: chat_or_complete_def Let_def split: step.splits prod.splits)
next
  assume "call_chat sys user = Inl e1 \<and> call_compl (merged_prompt sys user) = Inr r \<and> r \<noteq> []"
  then show "chat_or_complete call_chat call_compl sys user ''auto''
          = ([ChatCompletions, Completions], Inr r)"
    by (cases e1) (simp_all add: chat_or_complete_def try_chat_def try_completions_def)
next
  assume a: "call_chat sys user = Inl e1 \<and> call_compl (merged_prompt sys user) = Inl e2"
  have s1: "try_chat call_chat sys user ''auto'' = Next (Some e1)"
    using a by (cases e1) (simp_all add: try_chat_def)
  show "\<exists>msg. chat_or_complete call_chat call_compl sys user ''auto''
                   = ([ChatCompletions, Completions], Inl (ValueError msg))
                 \<and> sublist (str_exn e1) msg \<and> sublist (str_exn e2) msg"
  proof (cases e2)
    case (HTTPError m)
    let ?msg = "E_acute @ ''chec des deux endpoints API.'' @ nl
             @ ''- /v1/chat/completions: '' @ str_exn e1 @ nl
             @ ''- /v1/completions: '' @ m @ nl @ nl
             @ ''V'' @ e_acute @ ''rifiez LM Studio et le Context Length.''"
    have "chat_or_complete call_chat call_compl sys user ''auto''
                   = ([ChatCompletions, Completions], Inl (ValueError ?msg))"
      using a s1 HTTPError
      by (simp add: chat_or_complete_def try_completions_def str_last_error_def)
    moreover have "sublist (str_exn e1) ?msg"
      using sublist_mid[of "str_exn e1" "E_acute @ ''chec des deux endpoints API.'' @ nl
             @ ''- /v1/chat/completions: ''"] by simp
    moreover have "sublist (str_exn e2) ?msg"
      using HTTPError sublist_mid[of m "E_acute @ ''chec des deux endpoints API.'' @ nl
             @ ''- /v1/chat/completions: '' @ str_exn e1 @ nl
             @ ''- /v1/completions: ''"] by simp
    ultimately show ?thesis by blast
  next
    case (ValueError m)
    let ?msg = "E_acute @ ''chec chat ('' @ str_exn e1 @ '') et completions ('' @ m @ '')''"
    have "chat_or_complete call_chat call_compl sys user ''auto''
                   = ([ChatCompletions, Completions], Inl (ValueError ?msg))"
      using a s1 ValueError
      by (simp add: chat_or_complete_def try_completions_def)
    moreover have "sublist (str_exn e1) ?msg"
      using sublist_mid[of "str_exn e1" "E_acute @ ''chec chat (''"] by simp
    moreover have "sublist (str_exn e2) ?msg"
      using ValueError sublist_mid[of m "E_acute @ ''chec chat ('' @ str_exn e1
          @ '') et completions (''"] by simp
    ultimately show ?thesis by blast
  next
    case (OtherError m)
    let ?msg = "E_acute @ ''chec chat ('' @ str_exn e1 @ '') et completions ('' @ m @ '')''"
    have "chat_or_complete call_chat call_compl sys user ''auto''
                   = ([ChatCompletions, Completions], Inl (ValueError ?msg))"
      using a s1 OtherError
      by (simp add: chat_or_complete_def try_completions_def)
    moreover have "sublist (str_exn e1) ?msg"
      using sublist_mid[of "str_exn e1" "E_acute @ ''chec chat (''"] by simp
    moreover have "sublist (str_exn e2) ?msg"
      using OtherError sublist_mid[of m "E_acute @ ''chec chat ('' @ str_exn e1
          @ '') et completions (''"] by simp
    ultimately show ?thesis by blast
  qed
qed

theorem chat_or_complete_auto_witness:
  "chat_or_complete chat_http_500 completion_text ''sys'' ''user'' ''auto''
     = ([ChatCompletions, Completions], Inr ''summary'')
   \<and> (\<exists>msg. chat_or_complete chat_http_500 completion_refused ''sys'' ''user'' ''auto''
             = ([ChatCompletions, Completions], Inl (ValueError msg))
           \<and> sublist ''500 Server Error'' msg \<and> sublist ''connection refused'' msg)"
proof -
  have a: "chat_http_500 ''sys'' ''user'' = Inl (HTTPError ''500 Server Error'')
           \<and> completion_text (merged_prompt ''sys'' ''user'') = Inr ''summary''
           \<and> ''summary'' \<noteq> []"
    by (simp add: chat_http_500_def completion_text_def)
  have b: "chat_http_500 ''sys'' ''user'' = Inl (HTTPError ''500 Server Error'')
           \<and> completion_refused (merged_prompt ''sys'' ''user'')
               = Inl (OtherError ''connection refused'')"
    by (simp add: chat_http_500_def completion_refused_def)
  from a chat_or_complete_auto
    [of chat_http_500 completion_text "''sys''" "''user''"
        "HTTPError ''500 Server Error''" "''summary''"]
  have 1: "chat_or_complete chat_http_500 completion_text ''sys'' ''user'' ''auto''
     = ([ChatCompletions, Completions], Inr ''summary'')"
    by blast
  from b chat_or_complete_auto
    [of chat_http_500 completion_refused "''sys''" "''user''"
        "HTTPError ''500 Server Error''" _ "OtherError ''connection refused''"]
  have 2: "\<exists>msg. chat_or_complete chat_http_500 completion_refused ''sys'' ''user'' ''auto''
             = ([ChatCompletions, Completions], Inl (ValueError msg))
           \<and> sublist ''500 Server Error'' msg \<and> sublist ''connection refused'' msg"
    by simp
  show ?thesis
    by (intro conjI) (rule 1 2)+
qed

text \<open>
  The chat endpoint answers HTTP 500 and the completions endpoint succeeds with an empty
  text: the chat failure is raised, not the completions result returned.
\<close>

theorem chat_or_complete_empty_completion:
  "chat_http_500 ''sys'' ''user'' = Inl (HTTPError ''500 Server Error'')
   \<and> completion_empty (merged_prompt ''sys'' ''user'') = Inr []
   \<and> chat_or_complete chat_http_500 completion_empty ''sys'' ''user'' ''auto''
       = ([ChatCompletions, Completions], Inl (HTTPError ''500 Server Error''))"
  by (simp add: chat_or_complete_def try_chat_def try_completions_def chat_http_500_def
      completion_empty_def)

subsection \<open>Tokenization\<close>

text \<open>
  C9: \<open>encode_tokens\<close> never raises, for any text, backend and behaviour of the tokenizer
  libraries; the empty text gives the empty sequence; and when the backend is HuggingFace
  and its tokenizer cannot be loaded or fails to encode, a warning is emitted and the
  result is that of tiktoken, or the whitespace-separated words when tiktoken fails too.
\<close>

theorem encode_tokens_never_raises:
  "(\<exists>toks. snd (encode_tokens libs txt backend hf_model_id) = Inr toks)
   \<and> encode_tokens libs [] backend hf_model_id = ([], Inr [])
   \<and> (txt \<noteq> [] \<and> backend = ''HuggingFace''
      \<and> (from_pretrained libs hf_model_id = Inl e
         \<or> (\<exists>tok. from_pretrained libs hf_model_id = Inr tok \<and> tok_encode tok txt = Inl e))
      \<longrightarrow> fst (encode_tokens libs txt backend hf_model_id) \<noteq> []
          \<and> snd (encode_tokens libs txt backend hf_model_id)
              = (case tiktoken_encode libs txt of
                   Inr ids \<Rightarrow> Inr (map TokenId ids)
                 | Inl _ \<Rightarrow> Inr (map TokenWord (py_split txt))))"
proof (intro conjI impI)
  show "\<exists>toks. snd (encode_tokens libs txt backend hf_model_id) = Inr toks"
    by (rule encode_tokens_Inr)
  show "encode_tokens libs [] backend hf_model_id = ([], Inr [])"
    by (simp add: encode_tokens_def)
next
  assume a: "txt \<noteq> [] \<and> backend = ''HuggingFace''
      \<and> (from_pretrained libs hf_model_id = Inl e
         \<or> (\<exists>tok. from_pretrained libs hf_model_id = Inr tok \<and> tok_encode tok txt = Inl e))"
  have ap: "encode_approx libs txt
              = (case tiktoken_encode libs txt of
                   Inr ids \<Rightarrow> Inr (map TokenId ids)
                 | Inl _ \<Rightarrow> Inr (map TokenWord (py_split txt)))"
    by (simp add: encode_approx_def try_except_def split: sum.splits)
  from a show "fst (encode_tokens libs txt backend hf_model_id) \<noteq> []"
    by (auto simp: encode_tokens_def get_hf_tokenizer_def)
  from a have "snd (encode_tokens libs txt backend hf_model_id) = encode_approx libs txt"
    by (auto simp: encode_tokens_def get_hf_tokenizer_def)
  with ap show "snd (encode_tokens libs txt backend hf_model_id)
              = (case tiktoken_encode libs txt of
                   Inr ids \<Rightarrow> Inr (map TokenId ids)
                 | Inl _ \<Rightarrow> Inr (map TokenWord (py_split txt)))"
    by simp
qed

theorem encode_tokens_never_raises_witness:
  "fst (encode_tokens example_libs ''a b'' ''HuggingFace'' ''m'') \<noteq> []
   \<and> snd (encode_tokens example_libs ''a b'' ''HuggingFace'' ''m'')
       = Inr [TokenWord ''a'', TokenWord ''b'']"
proof -
  have h: "''a b'' \<noteq> [] \<and> ''HuggingFace'' = ''HuggingFace''
      \<and> (from_pretrained example_libs ''m'' = Inl (OtherError ''offline'')
         \<or> (\<exists>tok. from_pretrained example_libs ''m'' = Inr tok
                  \<and> tok_encode tok ''a b'' = Inl (OtherError ''offline'')))"
    by (simp add: example_libs_def)
  have t: "tiktoken_encode example_libs ''a b'' = Inl (OtherError ''no tiktoken'')"
    by (simp add: example_libs_def)
  have s: "py_split ''a b'' = [''a'', ''b'']"
    by (rule py_split_ab)
  from h encode_tokens_never_raises
    [of example_libs "''a b''" "''HuggingFace''" "''m''" "OtherError ''offline''"]
  show ?thesis by (simp add: t s)
qed

subsection \<open>Diarization\<close>

text \<open>
  C10: with a HuggingFace token set and a pipeline that returns speaker turns, when there
  is at least one turn \<open>_diarize_audio\<close> returns one segment per turn, with the times and
  the speaker of the turn, the whole transcription as the text of the first segment and an
  empty text in every later one; when there is no turn it returns the single segment
  \<open>(0.0, 0.0, "SPEAKER_00", transcription)\<close>.
\<close>

theorem diarize_audio_text_on_first_segment:
  assumes "hf_token \<noteq> []"
  shows "(turns \<noteq> [] \<longrightarrow>
           (\<exists>segs. diarize_audio hf_token (Inr turns) transcription = Inr segs
              \<and> length segs = length turns
              \<and> snd (snd (snd (segs ! 0))) = transcription
              \<and> (\<forall>i<length segs. 0 < i \<longrightarrow> snd (snd (snd (segs ! i))) = [])
              \<and> (\<forall>i<length segs.
                    (fst (segs ! i), fst (snd (segs ! i)), fst (snd (snd (segs ! i))))
                      = turns ! i)))
       \<and> diarize_audio hf_token (Inr []) transcription
           = Inr [(0, 0, ''SPEAKER_00'', transcription)]"
proof (intro conjI impI)
  assume ne: "turns \<noteq> []"
  let ?segments = "map (\<lambda>(s, e, speaker). (s, e, speaker, [] :: string)) turns"
  let ?segs = "?segments[0 := (fst (?segments ! 0), fst (snd (?segments ! 0)),
                               fst (snd (snd (?segments ! 0))), transcription)]"
  have 1: "diarize_audio hf_token (Inr turns) transcription = Inr ?segs"
    using assms ne by (simp add: diarize_audio_def Let_def)
  have 2: "length ?segs = length turns" by simp
  have 3: "snd (snd (snd (?segs ! 0))) = transcription" using ne by simp
  have 4: "\<forall>i<length ?segs. 0 < i \<longrightarrow> snd (snd (snd (?segs ! i))) = []"
    by (auto simp: split_beta)
  have 5: "\<forall>i<length ?segs.
              (fst (?segs ! i), fst (snd (?segs ! i)), fst (snd (snd (?segs ! i)))) = turns ! i"
  proof (intro allI impI)
    fix i assume "i < length ?segs"
    then have i: "i < length turns" by simp
    show "(fst (?segs ! i), fst (snd (?segs ! i)), fst (snd (snd (?segs ! i)))) = turns ! i"
      using i by (cases i) (simp_all add: split_beta)
  qed
  show "\<exists>segs. diarize_audio hf_token (Inr turns) transcription = Inr segs
              \<and> length segs = length turns
              \<and> snd (snd (snd (segs ! 0))) = transcription
              \<and> (\<forall>i<length segs. 0 < i \<longrightarrow> snd (snd (snd (segs ! i))) = [])
              \<and> (\<forall>i<length segs.
                    (fst (segs ! i), fst (snd (segs ! i)), fst (snd (snd (segs ! i))))
                      = turns ! i)"
    by (intro exI[of _ ?segs] conjI) (rule 1 2 3 4 5)+
next
  show "diarize_audio hf_token (Inr []) transcription
           = Inr [(0, 0, ''SPEAKER_00'', transcription)]"
    using assms by (simp add: diarize_audio_def)
qed

theorem diarize_audio_text_on_first_segment_witness:
  "diarize_audio ''hf_xyz'' (Inr [(0, 2, ''SPEAKER_00''), (2, 5, ''SPEAKER_01'')]) ''bonjour''
     = Inr [(0, 2, ''SPEAKER_00'', ''bonjour''), (2, 5, ''SPEAKER_01'', [])]
   \<and> diarize_audio ''hf_xyz'' (Inr []) ''bonjour'' = Inr [(0, 0, ''SPEAKER_00'', ''bonjour'')]"
proof -
  have h: "''hf_xyz'' \<noteq> []" by simp
  have run: "diarize_audio ''hf_xyz'' (Inr [(0, 2, ''SPEAKER_00''), (2, 5, ''SPEAKER_01'')])
       ''bonjour'' = Inr [(0, 2, ''SPEAKER_00'', ''bonjour''), (2, 5, ''SPEAKER_01'', [])]"
    by (simp add: diarize_audio_def)
  from diarize_audio_text_on_first_segment [OF h, of "[]" "''bonjour''"] run
  show ?thesis by simp
qed

end
